theory Spec2Isabelle
  imports Complex_Main "HOL-Library.Sublist"
begin

section \<open>Strings\<close>

text \<open>
  A Python \<open>str\<close> is modelled as a \<open>string\<close>; a \<open>char\<close> stands for the code point of
  the same number (U+0000 to U+00FF). \<open>isspace\<close> lists the code points of that range that
  \<open>str.strip()\<close> removes: tab, line feed, vertical tab, form feed, carriage return, the
  four separators U+001C to U+001F, the space, U+0085 and U+00A0.
\<close>

definition isspace :: "char \<Rightarrow> bool" where
  "isspace c = (of_char c \<in> set [9, 10, 11, 12, 13, 28, 29, 30, 31, 32, 133, 160 :: nat])"

definition strip :: "string \<Rightarrow> string" where
  "strip s = rev (dropWhile isspace (rev (dropWhile isspace s)))"

definition digit_char :: "nat \<Rightarrow> char" where
  "digit_char d = ''0123456789'' ! d"

text \<open>\<open>str(i)\<close> of a non-negative integer, as the f-string \<open>f"(row {i})"\<close> renders it.\<close>

fun str_nat :: "nat \<Rightarrow> string" where
  "str_nat n = (if n < 10 then [digit_char n] else str_nat (n div 10) @ [digit_char (n mod 10)])"

declare str_nat.simps [simp del]

section \<open>Input rows and the classifier (\<open>read_accounts\<close>)\<close>

text \<open>
  \<open>csv.DictReader\<close> yields one dict per non-blank data line. A column of the header that
  the line is too short for holds \<open>None\<close> (\<open>Null\<close>); a column the header does not have
  is no key of the dict. \<open>dict_get\<close> is \<open>r.get(k)\<close>, which answers \<open>None\<close> for a missing
  key; \<open>or_empty\<close> is \<open>x or ""\<close>.
\<close>

datatype cell = Null | Str string

type_synonym row = "string \<Rightarrow> cell option"

definition dict_get :: "row \<Rightarrow> string \<Rightarrow> cell" where
  "dict_get r k = (case r k of None \<Rightarrow> Null | Some v \<Rightarrow> v)"

fun or_empty :: "cell \<Rightarrow> string" where
  "or_empty Null = []"
| "or_empty (Str s) = s"

text \<open>Lines 90 and 91: the two local variables of the loop body.\<close>

definition email_of :: "row \<Rightarrow> string" where
  "email_of r = strip (or_empty (dict_get r ''email''))"

definition pw_of :: "row \<Rightarrow> string" where
  "pw_of r = strip (or_empty (dict_get r ''app_password''))"

text \<open>The dict \<open>{"email": ..., "reason": ...}\<close> appended to \<open>skipped\<close>.\<close>

record skip_row =
  skip_email :: string
  skip_reason :: string

definition row_placeholder :: "nat \<Rightarrow> string" where
  "row_placeholder i = ''(row '' @ str_nat i @ '')''"

text \<open>
  The loop \<open>for i, r in enumerate(csv.DictReader(f), start=2)\<close>, with the two lists it
  appends to as accumulators.
\<close>

fun read_loop ::
  "nat \<Rightarrow> row list \<Rightarrow> (string \<times> string) list \<Rightarrow> skip_row list
    \<Rightarrow> (string \<times> string) list \<times> skip_row list" where
  "read_loop i [] valid skipped = (valid, skipped)"
| "read_loop i (r # rs) valid skipped =
     (let email = email_of r; pw = pw_of r in
      if email = [] \<or> pw = [] then
        read_loop (i + 1) rs valid
          (skipped @ [\<lparr>skip_email = (if email \<noteq> [] then email else row_placeholder i),
                       skip_reason = (if email = [] then ''missing email''
                                      else ''missing app_password'')\<rparr>])
      else read_loop (i + 1) rs (valid @ [(email, pw)]) skipped)"

definition read_accounts :: "row list \<Rightarrow> (string \<times> string) list \<times> skip_row list" where
  "read_accounts rows = read_loop 2 rows [] []"

section \<open>Exceptions, library calls and the environment\<close>

text \<open>
  An exception is known by its class and by \<open>str(e)\<close>. \<open>Exception m\<close> is an instance of
  \<open>Exception\<close> or of a subclass of it (\<open>OSError\<close>, \<open>socket.timeout\<close>, \<open>ssl.SSLError\<close>,
  \<open>imaplib.IMAP4.error\<close>, \<open>smtplib.SMTPException\<close>, ...) with \<open>str(e) = m\<close>;
  \<open>BaseException m\<close> is one of the classes outside \<open>Exception\<close> (\<open>KeyboardInterrupt\<close>,
  \<open>SystemExit\<close>), which \<open>except Exception\<close> does not catch.
\<close>

datatype exn = Exception string | BaseException string

fun str_exn :: "exn \<Rightarrow> string" where
  "str_exn (Exception m) = m"
| "str_exn (BaseException m) = m"

fun is_Exception :: "exn \<Rightarrow> bool" where
  "is_Exception (Exception m) = True"
| "is_Exception (BaseException m) = False"

text \<open>
  The calls the program makes outside itself, with their arguments. \<open>IMAP_exit\<close> is the
  \<open>__exit__\<close> of the \<open>with\<close> statement over the IMAP connection; \<open>Print\<close> is a line
  written to standard output (its text is not modelled); \<open>Time\<close> is \<open>time.time()\<close>.
\<close>

datatype call =
    IMAP4_SSL string nat int
  | IMAP_login string string
  | IMAP_noop
  | IMAP_logout
  | IMAP_exit
  | SMTP_SSL string nat int
  | SMTP string nat int
  | SMTP_ehlo
  | SMTP_starttls
  | SMTP_login string string
  | SMTP_quit
  | Sleep rat
  | Time
  | Print

text \<open>
  The environment answers every library call, given the calls made before it:
  \<open>raises w h c = Some e\<close> when the call \<open>c\<close>, made after the calls \<open>h\<close>, raises \<open>e\<close>, and
  \<open>None\<close> when it returns. \<open>clock w h\<close> is what \<open>time.time()\<close> reads after the calls
  \<open>h\<close>. Times are exact rationals: the rounding of binary floating point is not modelled.
\<close>

record env =
  raises :: "call list \<Rightarrow> call \<Rightarrow> exn option"
  clock :: "call list \<Rightarrow> rat"

text \<open>
  A statement runs from the calls made so far to its outcome (\<open>Inl\<close> the exception that
  leaves it, \<open>Inr\<close> its value) and the calls made by then.
\<close>

type_synonym 'a io = "call list \<Rightarrow> (exn + 'a) \<times> call list"

definition ret :: "'a \<Rightarrow> 'a io" where
  "ret v h = (Inr v, h)"

definition bind_io :: "'a io \<Rightarrow> ('a \<Rightarrow> 'b io) \<Rightarrow> 'b io" where
  "bind_io m k h = (case m h of (Inl e, h') \<Rightarrow> (Inl e, h') | (Inr v, h') \<Rightarrow> k v h')"

definition seq :: "unit io \<Rightarrow> 'a io \<Rightarrow> 'a io" where
  "seq m n = bind_io m (\<lambda>_. n)"

text \<open>\<open>try: body except Exception as e: handler e\<close>.\<close>

definition try_except :: "'a io \<Rightarrow> (exn \<Rightarrow> 'a io) \<Rightarrow> 'a io" where
  "try_except body handler h =
     (case body h of
        (Inl e, h') \<Rightarrow> if is_Exception e then handler e h' else (Inl e, h')
      | (Inr v, h') \<Rightarrow> (Inr v, h'))"

text \<open>
  \<open>with mk as M: body\<close>: when \<open>mk\<close> returns, \<open>body\<close> runs and then \<open>__exit__\<close>, whatever
  left the body; an exception of \<open>__exit__\<close> replaces the body's, and \<open>__exit__\<close> of
  \<open>imaplib.IMAP4\<close> returns \<open>None\<close>, so it suppresses nothing.
\<close>

definition with_stmt :: "unit io \<Rightarrow> unit io \<Rightarrow> unit io \<Rightarrow> unit io" where
  "with_stmt mk exit body =
     bind_io mk (\<lambda>_ h.
       case body h of
         (r, h') \<Rightarrow> (case exit h' of (Inl e', h'') \<Rightarrow> (Inl e', h'') | (Inr _, h'') \<Rightarrow> (r, h'')))"

definition do_call :: "env \<Rightarrow> call \<Rightarrow> unit io" where
  "do_call w c h = ((case raises w h c of None \<Rightarrow> Inr () | Some e \<Rightarrow> Inl e), h @ [c])"

text \<open>\<open>print\<close> is taken to return normally.\<close>

definition print :: "unit io" where
  "print h = (Inr (), h @ [Print])"

definition log :: "bool \<Rightarrow> unit io" where
  "log verbose = (if verbose then print else ret ())"

definition time_time :: "env \<Rightarrow> rat io" where
  "time_time w h = (Inr (clock w h), h @ [Time])"

text \<open>\<open>time.sleep(d)\<close> raises \<open>ValueError\<close> for a negative \<open>d\<close>.\<close>

definition time_sleep :: "rat \<Rightarrow> unit io" where
  "time_sleep d h =
     (if d < 0 then (Inl (Exception ''sleep length must be non-negative''), h)
      else (Inr (), h @ [Sleep d]))"

text \<open>
  \<open>round(x, 2)\<close>: the closest multiple of one hundredth, the even one of two equally close.
\<close>

definition round_half_even :: "rat \<Rightarrow> int" where
  "round_half_even x =
     (let f = \<lfloor>x\<rfloor>; d = x - of_int f in
      if d < 1 / 2 then f else if 1 / 2 < d then f + 1 else if even f then f else f + 1)"

definition round2 :: "rat \<Rightarrow> rat" where
  "round2 x = of_int (round_half_even (x * 100)) / 100"

section \<open>The probes\<close>

definition IMAP_HOST :: string where "IMAP_HOST = ''imap.gmail.com''"
definition IMAP_PORT_SSL :: nat where "IMAP_PORT_SSL = 993"
definition SMTP_HOST :: string where "SMTP_HOST = ''smtp.gmail.com''"
definition SMTP_PORT_SSL :: nat where "SMTP_PORT_SSL = 465"
definition SMTP_PORT_STARTTLS :: nat where "SMTP_PORT_STARTTLS = 587"

text \<open>
  The body of the \<open>try\<close> of \<open>test_imap\<close>, lines 31 to 39. The assignment to
  \<open>imaplib.Commands['ID']\<close> stores a constant in a table of the library and is left out.
\<close>

definition imap_attempt :: "env \<Rightarrow> string \<Rightarrow> string \<Rightarrow> int \<Rightarrow> bool \<Rightarrow> (bool \<times> string) io" where
  "imap_attempt w email app_password timeout verbose =
     seq (log verbose)
    (seq (with_stmt (do_call w (IMAP4_SSL IMAP_HOST IMAP_PORT_SSL timeout)) (do_call w IMAP_exit)
            (seq (log verbose)
            (seq (do_call w (IMAP_login email app_password))
            (seq (log verbose)
            (seq (do_call w IMAP_noop)
                 (do_call w IMAP_logout))))))
         (ret (True, [])))"

text \<open>\<open>test_imap\<close>, lines 29 to 41.\<close>

definition test_imap :: "env \<Rightarrow> string \<Rightarrow> string \<Rightarrow> int \<Rightarrow> bool \<Rightarrow> (bool \<times> string) io" where
  "test_imap w email app_password timeout verbose =
     try_except (imap_attempt w email app_password timeout verbose)
       (\<lambda>e. ret (False, str_exn e))"

text \<open>\<open>try: server.quit() except Exception: pass\<close>.\<close>

definition quit_quietly :: "env \<Rightarrow> unit io" where
  "quit_quietly w = try_except (do_call w SMTP_quit) (\<lambda>e. ret ())"

text \<open>The body of the outer \<open>try\<close> of \<open>test_smtp\<close>, lines 46 to 54: implicit TLS on port 465.\<close>

definition smtp_ssl_attempt :: "env \<Rightarrow> string \<Rightarrow> string \<Rightarrow> int \<Rightarrow> bool \<Rightarrow> (bool \<times> string) io" where
  "smtp_ssl_attempt w email app_password timeout verbose =
     seq (log verbose)
    (seq (do_call w (SMTP_SSL SMTP_HOST SMTP_PORT_SSL timeout))
    (seq (log verbose)
    (seq (do_call w (SMTP_login email app_password))
    (seq (quit_quietly w)
         (ret (True, []))))))"

text \<open>The body of the inner \<open>try\<close>, lines 58 to 68: STARTTLS on port 587.\<close>

definition smtp_starttls_attempt ::
  "env \<Rightarrow> string \<Rightarrow> string \<Rightarrow> int \<Rightarrow> bool \<Rightarrow> (bool \<times> string) io" where
  "smtp_starttls_attempt w email app_password timeout verbose =
     seq (do_call w (SMTP SMTP_HOST SMTP_PORT_STARTTLS timeout))
    (seq (do_call w SMTP_ehlo)
    (seq (do_call w SMTP_starttls)
    (seq (do_call w SMTP_ehlo)
    (seq (log verbose)
    (seq (do_call w (SMTP_login email app_password))
    (seq (quit_quietly w)
         (ret (True, []))))))))"

text \<open>\<open>test_smtp\<close>, lines 43 to 70.\<close>

definition test_smtp :: "env \<Rightarrow> string \<Rightarrow> string \<Rightarrow> int \<Rightarrow> bool \<Rightarrow> (bool \<times> string) io" where
  "test_smtp w email app_password timeout verbose =
     try_except (smtp_ssl_attempt w email app_password timeout verbose)
       (\<lambda>e_ssl.
          seq (log verbose)
            (try_except (smtp_starttls_attempt w email app_password timeout verbose)
               (\<lambda>e_tls. ret (False, ''SSL:'' @ str_exn e_ssl @ ''; STARTTLS:'' @ str_exn e_tls))))"

section \<open>The verifier (\<open>test_one\<close>)\<close>

record result =
  email :: string
  imap_ok :: bool
  imap_error :: string
  smtp_ok :: bool
  smtp_error :: string
  elapsed_s :: rat

definition test_one :: "env \<Rightarrow> string \<Rightarrow> string \<Rightarrow> int \<Rightarrow> bool \<Rightarrow> rat \<Rightarrow> result io" where
  "test_one w email' app_password timeout verbose inter_proto_pause =
     bind_io (time_time w) (\<lambda>t0.
     bind_io (test_imap w email' app_password timeout verbose) (\<lambda>(imap_ok', imap_err).
     seq (time_sleep inter_proto_pause)
    (bind_io (test_smtp w email' app_password timeout verbose) (\<lambda>(smtp_ok', smtp_err).
     bind_io (time_time w) (\<lambda>t1.
     ret \<lparr>email = email', imap_ok = imap_ok', imap_error = imap_err,
          smtp_ok = smtp_ok', smtp_error = smtp_err,
          elapsed_s = round2 (t1 - t0)\<rparr>)))))"

text \<open>The default of the parameter \<open>inter_proto_pause\<close>, which no caller overrides.\<close>

definition inter_proto_pause_default :: rat where
  "inter_proto_pause_default = 1 / 2"

section \<open>The report (\<open>write_report\<close>)\<close>

text \<open>
  A value handed to \<open>csv.writer.writerow\<close> is a \<open>str\<close> or the \<open>float\<close> of \<open>elapsed_s\<close>; the
  file is the list of the rows written, the header first.
\<close>

datatype field = Text string | Number rat

definition header_row :: "field list" where
  "header_row = [Text ''email'', Text ''imap_ok'', Text ''imap_error'',
                 Text ''smtp_ok'', Text ''smtp_error'', Text ''elapsed_s'']"

definition result_line :: "result \<Rightarrow> field list" where
  "result_line r =
     [Text (email r),
      Text (if imap_ok r then ''OK'' else ''FAIL''),
      Text (imap_error r),
      Text (if smtp_ok r then ''OK'' else ''FAIL''),
      Text (smtp_error r),
      Number (elapsed_s r)]"

definition skip_line :: "skip_row \<Rightarrow> field list" where
  "skip_line s =
     [Text (skip_email s), Text ''SKIP'', Text (skip_reason s),
      Text ''SKIP'', Text (skip_reason s), Text []]"

fun write_results :: "result list \<Rightarrow> field list list \<Rightarrow> field list list" where
  "write_results [] f = f"
| "write_results (r # rs) f = write_results rs (f @ [result_line r])"

fun write_skips :: "skip_row list \<Rightarrow> field list list \<Rightarrow> field list list" where
  "write_skips [] f = f"
| "write_skips (s # ss) f = write_skips ss (f @ [skip_line s])"

definition write_report :: "result list \<Rightarrow> skip_row list \<Rightarrow> field list list" where
  "write_report results skipped_rows = write_skips skipped_rows (write_results results [header_row])"

section \<open>The scheduler and \<open>main\<close>\<close>

text \<open>
  The parsed command line, without the two file paths. \<open>argparse\<close> reads the three
  numbers with \<open>type=int\<close>, so they may be negative.
\<close>

record args =
  concurrency :: int
  timeout :: int
  verbose :: bool
  sequential :: bool
  delay_on_success :: int

definition raise :: "exn \<Rightarrow> 'a io" where
  "raise e h = (Inl e, h)"

text \<open>\<open>post_result\<close>, lines 152 to 157, with the list \<open>results\<close> it appends to.\<close>

definition post_result :: "args \<Rightarrow> result \<Rightarrow> result list \<Rightarrow> result list io" where
  "post_result a r results =
     seq print
    (seq (if delay_on_success a \<noteq> 0 \<and> imap_ok r \<and> smtp_ok r
          then seq print (time_sleep (of_int (delay_on_success a)))
          else ret ())
         (ret (results @ [r])))"

text \<open>The loop of the sequential branch, lines 160 to 163.\<close>

fun run_sequential :: "env \<Rightarrow> args \<Rightarrow> (string \<times> string) list \<Rightarrow> result list \<Rightarrow> result list io" where
  "run_sequential w a [] results = ret results"
| "run_sequential w a ((email', pw) # rest) results =
     seq print
    (bind_io (test_one w email' pw (timeout a) (verbose a) inter_proto_pause_default) (\<lambda>r.
     bind_io (post_result a r results) (\<lambda>results'.
     run_sequential w a rest results')))"

text \<open>
  The thread pool, lines 165 to 170. The worker threads share nothing of the program's
  own but what they are given, so the call submitted for the pair at index \<open>i\<close> is run
  in an environment of its own, \<open>worker p i\<close>, from no calls made; \<open>completed p\<close> is the
  order in which \<open>as_completed\<close> yields the futures, by index. \<open>fut.result()\<close> returns
  what the call returned or raises what it raised.
\<close>

record pool =
  worker :: "nat \<Rightarrow> env"
  completed :: "nat list"

definition fut_result :: "pool \<Rightarrow> args \<Rightarrow> (string \<times> string) list \<Rightarrow> nat \<Rightarrow> exn + result" where
  "fut_result p a valid i =
     fst (test_one (worker p i) (fst (valid ! i)) (snd (valid ! i)) (timeout a) (verbose a)
            inter_proto_pause_default [])"

fun collect :: "args \<Rightarrow> (exn + result) list \<Rightarrow> result list \<Rightarrow> result list io" where
  "collect a [] results = ret results"
| "collect a (Inl e # futs) results = raise e"
| "collect a (Inr r # futs) results =
     bind_io (post_result a r results) (\<lambda>results'. collect a futs results')"

definition run_concurrent :: "pool \<Rightarrow> args \<Rightarrow> (string \<times> string) list \<Rightarrow> result list io" where
  "run_concurrent p a valid = collect a (map (fut_result p a valid) (completed p)) []"

text \<open>Lines 159 to 170.\<close>

definition schedule :: "env \<Rightarrow> pool \<Rightarrow> args \<Rightarrow> (string \<times> string) list \<Rightarrow> result list io" where
  "schedule w p a valid_accounts =
     (if sequential a \<or> length valid_accounts \<le> 1 then run_sequential w a valid_accounts []
      else run_concurrent p a valid_accounts)"

text \<open>\<open>socket.setdefaulttimeout(t)\<close> raises \<open>ValueError\<close> for a negative \<open>t\<close>.\<close>

definition setdefaulttimeout :: "int \<Rightarrow> unit io" where
  "setdefaulttimeout t = (if t < 0 then raise (Exception ''Timeout value out of range'') else ret ())"

fun print_skips :: "skip_row list \<Rightarrow> unit io" where
  "print_skips [] = ret ()"
| "print_skips (s # ss) = seq print (print_skips ss)"

text \<open>
  \<open>main\<close>, from the parsed arguments and the rows of the input file; its value is the
  report it writes.
\<close>

definition main :: "env \<Rightarrow> pool \<Rightarrow> args \<Rightarrow> row list \<Rightarrow> field list list io" where
  "main w p a rows =
     seq (setdefaulttimeout (timeout a))
       (case read_accounts rows of
          (valid_accounts, skipped_rows) \<Rightarrow>
            seq print
           (seq (print_skips skipped_rows)
           (bind_io (schedule w p a valid_accounts) (\<lambda>results.
            seq print (ret (write_report results skipped_rows))))))"

section \<open>Vocabulary of the properties\<close>

text \<open>
  The environments in which every exception a library call raises is of class
  \<open>Exception\<close>: connection, TLS, protocol, authentication and timeout failures, and any
  other error short of an interrupt or an exit of the interpreter.
\<close>

definition only_Exceptions :: "env \<Rightarrow> bool" where
  "only_Exceptions w = (\<forall>h c e. raises w h c = Some e \<longrightarrow> is_Exception e)"

text \<open>An exception that some library call raises in the environment.\<close>

definition raised_in :: "env \<Rightarrow> exn \<Rightarrow> bool" where
  "raised_in w e = (\<exists>h c. raises w h c = Some e)"

text \<open>
  A statement that only exceptions satisfying \<open>P\<close> leave; one that always returns.
\<close>

definition raising :: "(exn \<Rightarrow> bool) \<Rightarrow> 'a io \<Rightarrow> bool" where
  "raising P m = (\<forall>h e h'. m h = (Inl e, h') \<longrightarrow> P e)"

definition returns :: "'a io \<Rightarrow> bool" where
  "returns m = (\<forall>h. \<exists>v h'. m h = (Inr v, h'))"

text \<open>A statement whose values all satisfy \<open>P\<close>; one whose calls all satisfy \<open>Q\<close>.\<close>

definition yields :: "('a \<Rightarrow> bool) \<Rightarrow> 'a io \<Rightarrow> bool" where
  "yields P m = (\<forall>h v h'. m h = (Inr v, h') \<longrightarrow> P v)"

definition emits :: "(call \<Rightarrow> bool) \<Rightarrow> 'a io \<Rightarrow> bool" where
  "emits Q m = (\<forall>h x h'. m h = (x, h') \<longrightarrow> (\<exists>ext. h' = h @ ext \<and> list_all Q ext))"

text \<open>A string with no whitespace at either end.\<close>

definition trimmed :: "string \<Rightarrow> bool" where
  "trimmed s = (s = [] \<or> (\<not> isspace (hd s) \<and> \<not> isspace (last s)))"

text \<open>The credentials a call logs in with, if it is a login.\<close>

fun login_args :: "call \<Rightarrow> (string \<times> string) option" where
  "login_args (IMAP_login u q) = Some (u, q)"
| "login_args (SMTP_login u q) = Some (u, q)"
| "login_args c = None"

section \<open>Example environments\<close>

text \<open>A clock that advances by a sixteenth of a second with every call.\<close>

definition tick :: "call list \<Rightarrow> rat" where
  "tick h = of_nat (length h) / 16"

text \<open>Every call returns.\<close>

definition env_up :: env where
  "env_up = \<lparr>raises = (\<lambda>h c. None), clock = tick\<rparr>"

text \<open>
  The connection to port 465 is refused and the server on port 587 does not offer
  STARTTLS; everything else returns.
\<close>

definition env_smtp_down :: env where
  "env_smtp_down =
     \<lparr>raises = (\<lambda>h c. case c of
                  SMTP_SSL host port t \<Rightarrow> Some (Exception ''refused'')
                | SMTP_starttls \<Rightarrow> Some (Exception ''no tls'')
                | _ \<Rightarrow> None),
      clock = tick\<rparr>"

text \<open>Port 465 is refused, port 587 works.\<close>

definition env_fallback :: env where
  "env_fallback =
     \<lparr>raises = (\<lambda>h c. case c of
                  SMTP_SSL host port t \<Rightarrow> Some (Exception ''refused'')
                | _ \<Rightarrow> None),
      clock = tick\<rparr>"

text \<open>The IMAP connection fails with an exception whose message is empty.\<close>

definition env_silent :: env where
  "env_silent =
     \<lparr>raises = (\<lambda>h c. case c of
                  IMAP4_SSL host port t \<Rightarrow> Some (Exception [])
                | _ \<Rightarrow> None),
      clock = tick\<rparr>"

text \<open>Every login is rejected.\<close>

definition env_rejecting :: env where
  "env_rejecting =
     \<lparr>raises = (\<lambda>h c. case c of
                  IMAP_login u q \<Rightarrow> Some (Exception ''bad credentials'')
                | SMTP_login u q \<Rightarrow> Some (Exception ''bad credentials'')
                | _ \<Rightarrow> None),
      clock = tick\<rparr>"




section \<open>Properties of the classifier\<close>

lemma read_loop_char:
  "read_loop i rows valid skipped =
    (valid @ map (\<lambda>r. (email_of r, pw_of r))
               (filter (\<lambda>r. email_of r \<noteq> [] \<and> pw_of r \<noteq> []) rows),
     skipped @ map (\<lambda>(n, r). \<lparr>skip_email = (if email_of r = [] then row_placeholder n else email_of r),
                               skip_reason = (if email_of r = [] then ''missing email''
                                              else ''missing app_password'')\<rparr>)
                 (filter (\<lambda>(n, r). email_of r = [] \<or> pw_of r = [])
                    (zip [i ..< i + length rows] rows)))"
proof (induction rows arbitrary: i valid skipped)
  case Nil
  show ?case by simp
next
  case (Cons r rs)
  have up: "[i ..< i + length (r # rs)] = i # [i + 1 ..< (i + 1) + length rs]"
    by (simp add: upt_rec)
  show ?case
    unfolding up by (simp add: Cons.IH Let_def)
qed

subsection \<open>Which exceptions leave a statement\<close>

lemma raising_ret: "raising P (ret v)"
  by (simp add: raising_def ret_def)

lemma raising_print: "raising P print"
  by (simp add: raising_def print_def)

lemma raising_log: "raising P (log v)"
  by (simp add: log_def raising_print raising_ret)

lemma raising_time_time: "raising P (time_time w)"
  by (simp add: raising_def time_time_def)

lemma raising_time_sleep: "(\<And>m. P (Exception m)) \<Longrightarrow> raising P (time_sleep d)"
  by (auto simp: raising_def time_sleep_def split: if_splits)

lemma raising_raise: "P e \<Longrightarrow> raising P (raise e)"
  by (simp add: raising_def raise_def)

lemma raising_do_call: "raising (raised_in w) (do_call w c)"
  by (auto simp: raising_def do_call_def raised_in_def split: option.splits)

lemma catchable_do_call: "only_Exceptions w \<Longrightarrow> raising is_Exception (do_call w c)"
  by (auto simp: raising_def do_call_def only_Exceptions_def split: option.splits)

lemma raising_bind: "raising P m \<Longrightarrow> (\<And>v. raising P (k v)) \<Longrightarrow> raising P (bind_io m k)"
  unfolding raising_def bind_io_def
  by (auto split: prod.splits sum.splits)

lemma raising_seq: "raising P m \<Longrightarrow> raising P n \<Longrightarrow> raising P (seq m n)"
  by (simp add: seq_def raising_bind)

lemma raising_try:
  "raising P body \<Longrightarrow> (\<And>e. raising P (handler e)) \<Longrightarrow> raising P (try_except body handler)"
  unfolding raising_def try_except_def
  by (auto split: prod.splits sum.splits if_splits)

lemma raising_with:
  "raising P mk \<Longrightarrow> raising P exit \<Longrightarrow> raising P body \<Longrightarrow> raising P (with_stmt mk exit body)"
  unfolding with_stmt_def
  apply (rule raising_bind, assumption)
  unfolding raising_def
  by (auto split: prod.splits sum.splits) blast+

lemma raising_mono: "raising P m \<Longrightarrow> (\<And>e. P e \<Longrightarrow> Q e) \<Longrightarrow> raising Q m"
  by (auto simp: raising_def)

subsection \<open>Statements that return\<close>

lemma returns_ret: "returns (ret v)"
  by (simp add: returns_def ret_def)

lemma returns_print: "returns print"
  by (simp add: returns_def print_def)

lemma returns_log: "returns (log v)"
  by (simp add: log_def returns_print returns_ret)

lemma returns_time_time: "returns (time_time w)"
  by (simp add: returns_def time_time_def)

lemma returns_time_sleep: "0 \<le> d \<Longrightarrow> returns (time_sleep d)"
  by (simp add: returns_def time_sleep_def)

lemma returns_bind: "returns m \<Longrightarrow> (\<And>v. returns (k v)) \<Longrightarrow> returns (bind_io m k)"
  unfolding returns_def bind_io_def
  by (auto split: prod.splits sum.splits) (metis Pair_inject sum.distinct(1) sum.inject(2))+

lemma returns_seq: "returns m \<Longrightarrow> returns n \<Longrightarrow> returns (seq m n)"
  by (simp add: seq_def returns_bind)

lemma returns_try:
  "raising is_Exception body \<Longrightarrow> (\<And>e. returns (handler e)) \<Longrightarrow> returns (try_except body handler)"
  unfolding returns_def raising_def try_except_def
  by (auto split: prod.splits sum.splits)

subsection \<open>The values of a statement\<close>

lemma yields_ret: "P v \<Longrightarrow> yields P (ret v)"
  by (simp add: yields_def ret_def)

lemma yields_bind: "(\<And>v. yields P (k v)) \<Longrightarrow> yields P (bind_io m k)"
  unfolding yields_def bind_io_def
  by (auto split: prod.splits sum.splits)

lemma yields_seq: "yields P n \<Longrightarrow> yields P (seq m n)"
  by (simp add: seq_def yields_bind)

lemma yields_try: "yields P body \<Longrightarrow> (\<And>e. yields P (handler e)) \<Longrightarrow> yields P (try_except body handler)"
  unfolding yields_def try_except_def
  by (auto split: prod.splits sum.splits if_splits)

lemma try_except_cases:
  assumes "try_except body handler h = (x, h')"
  obtains (returned) v where "body h = (Inr v, h')" and "x = Inr v"
  | (caught) e h1 where "body h = (Inl e, h1)" and "is_Exception e" and "handler e h1 = (x, h')"
  | (escaped) e where "body h = (Inl e, h')" and "\<not> is_Exception e" and "x = Inl e"
  using assms unfolding try_except_def
  by (auto split: prod.splits sum.splits if_splits)

lemma yieldsD: "yields P m \<Longrightarrow> m h = (Inr v, h') \<Longrightarrow> P v"
  unfolding yields_def by blast

lemma raisingD: "raising P m \<Longrightarrow> m h = (Inl e, h') \<Longrightarrow> P e"
  unfolding raising_def by blast

lemma returnsD: "returns m \<Longrightarrow> \<exists>v h'. m h = (Inr v, h')"
  unfolding returns_def by blast

subsection \<open>The probes\<close>

lemma imap_attempt_raising: "raising (raised_in w) (imap_attempt w u q t v)"
  unfolding imap_attempt_def
  by (intro raising_seq raising_with raising_log raising_ret raising_do_call)

lemma imap_attempt_catchable: "only_Exceptions w \<Longrightarrow> raising is_Exception (imap_attempt w u q t v)"
  unfolding imap_attempt_def
  by (intro raising_seq raising_with raising_log raising_ret catchable_do_call)

lemma imap_attempt_yields: "yields (\<lambda>r. r = (True, [])) (imap_attempt w u q t v)"
  unfolding imap_attempt_def
  by (intro yields_seq yields_ret) simp

lemma test_imap_cases:
  assumes "test_imap w u q t v h = (r, h')"
  shows "r = Inr (True, [])
       \<or> (\<exists>x. raised_in w x \<and> is_Exception x \<and> r = Inr (False, str_exn x))
       \<or> (\<exists>x. raised_in w x \<and> \<not> is_Exception x \<and> r = Inl x)"
  using assms [unfolded test_imap_def]
proof (cases rule: try_except_cases)
  case (returned val)
  from yieldsD [OF imap_attempt_yields returned(1)] have "val = (True, [])" .
  with returned show ?thesis by simp
next
  case (caught x h1)
  from raisingD [OF imap_attempt_raising caught(1)] have "raised_in w x" .
  with caught show ?thesis by (auto simp: ret_def)
next
  case (escaped x)
  from raisingD [OF imap_attempt_raising escaped(1)] have "raised_in w x" .
  with escaped show ?thesis by simp
qed

lemma quit_quietly_raising: "raising (raised_in w) (quit_quietly w)"
  unfolding quit_quietly_def
  by (intro raising_try raising_do_call raising_ret)

lemma quit_quietly_catchable: "only_Exceptions w \<Longrightarrow> raising is_Exception (quit_quietly w)"
  unfolding quit_quietly_def
  by (intro raising_try catchable_do_call raising_ret)

lemma smtp_ssl_attempt_raising: "raising (raised_in w) (smtp_ssl_attempt w u q t v)"
  unfolding smtp_ssl_attempt_def
  by (intro raising_seq raising_log raising_ret raising_do_call quit_quietly_raising)

lemma smtp_ssl_attempt_catchable:
  "only_Exceptions w \<Longrightarrow> raising is_Exception (smtp_ssl_attempt w u q t v)"
  unfolding smtp_ssl_attempt_def
  by (intro raising_seq raising_log raising_ret catchable_do_call quit_quietly_catchable)

lemma smtp_ssl_attempt_yields: "yields (\<lambda>r. r = (True, [])) (smtp_ssl_attempt w u q t v)"
  unfolding smtp_ssl_attempt_def
  by (intro yields_seq yields_ret) simp

lemma smtp_starttls_attempt_raising: "raising (raised_in w) (smtp_starttls_attempt w u q t v)"
  unfolding smtp_starttls_attempt_def
  by (intro raising_seq raising_log raising_ret raising_do_call quit_quietly_raising)

lemma smtp_starttls_attempt_catchable:
  "only_Exceptions w \<Longrightarrow> raising is_Exception (smtp_starttls_attempt w u q t v)"
  unfolding smtp_starttls_attempt_def
  by (intro raising_seq raising_log raising_ret catchable_do_call quit_quietly_catchable)

lemma smtp_starttls_attempt_yields: "yields (\<lambda>r. r = (True, [])) (smtp_starttls_attempt w u q t v)"
  unfolding smtp_starttls_attempt_def
  by (intro yields_seq yields_ret) simp

lemma seq_log: "seq (log v) m h = m (snd (log v h))"
  by (simp add: seq_def bind_io_def log_def print_def ret_def)

lemma test_smtp_unfold:
  "test_smtp w u q t v h =
    (case smtp_ssl_attempt w u q t v h of
       (Inr r, h1) \<Rightarrow> (Inr r, h1)
     | (Inl e1, h1) \<Rightarrow>
         if is_Exception e1 then
           (case smtp_starttls_attempt w u q t v (snd (log v h1)) of
              (Inr r, h2) \<Rightarrow> (Inr r, h2)
            | (Inl e2, h2) \<Rightarrow>
                if is_Exception e2
                then (Inr (False, ''SSL:'' @ str_exn e1 @ ''; STARTTLS:'' @ str_exn e2), h2)
                else (Inl e2, h2))
         else (Inl e1, h1))"
  unfolding test_smtp_def try_except_def seq_log
  by (auto split: prod.splits sum.splits simp: ret_def)

lemma test_smtp_cases:
  assumes "test_smtp w u q t v h = (r, h')"
  shows "r = Inr (True, [])
       \<or> (\<exists>x1 x2. raised_in w x1 \<and> is_Exception x1 \<and> raised_in w x2 \<and> is_Exception x2
             \<and> r = Inr (False, ''SSL:'' @ str_exn x1 @ ''; STARTTLS:'' @ str_exn x2))
       \<or> (\<exists>x. raised_in w x \<and> \<not> is_Exception x \<and> r = Inl x)"
proof (cases "smtp_ssl_attempt w u q t v h")
  case (Pair r1 h1)
  show ?thesis
  proof (cases r1)
    case (Inr val)
    from yieldsD [OF smtp_ssl_attempt_yields Pair [unfolded Inr]] have "val = (True, [])" .
    with assms Pair Inr show ?thesis by (simp add: test_smtp_unfold)
  next
    case (Inl e1)
    from raisingD [OF smtp_ssl_attempt_raising Pair [unfolded Inl]] have e1: "raised_in w e1" .
    show ?thesis
    proof (cases "is_Exception e1")
      case False
      with assms Pair Inl e1 show ?thesis by (auto simp: test_smtp_unfold)
    next
      case True
      obtain r2 h2 where two: "smtp_starttls_attempt w u q t v (snd (log v h1)) = (r2, h2)"
        by (cases "smtp_starttls_attempt w u q t v (snd (log v h1))")
      show ?thesis
      proof (cases r2)
        case (Inr val)
        from yieldsD [OF smtp_starttls_attempt_yields two [unfolded Inr]] have "val = (True, [])" .
        with assms Pair Inl True two Inr show ?thesis by (simp add: test_smtp_unfold)
      next
        case (Inl e2)
        from raisingD [OF smtp_starttls_attempt_raising two [unfolded Inl]] have e2: "raised_in w e2" .
        with assms Pair \<open>r1 = Inl e1\<close> True two Inl e1 show ?thesis
          by (auto simp: test_smtp_unfold split: if_splits)
      qed
    qed
  qed
qed

subsection \<open>Trimming\<close>

lemma strip_empty_iff: "strip s = [] \<longleftrightarrow> list_all isspace s"
proof -
  have "strip s = [] \<longleftrightarrow> (\<forall>c \<in> set (dropWhile isspace s). isspace c)"
    by (simp add: strip_def dropWhile_eq_Nil_conv)
  also have "\<dots> \<longleftrightarrow> dropWhile isspace s = []"
  proof
    assume all: "\<forall>c \<in> set (dropWhile isspace s). isspace c"
    show "dropWhile isspace s = []"
    proof (rule ccontr)
      assume ne: "dropWhile isspace s \<noteq> []"
      then have "\<not> isspace (hd (dropWhile isspace s))" by (rule hd_dropWhile)
      moreover from ne have "hd (dropWhile isspace s) \<in> set (dropWhile isspace s)" by simp
      ultimately show False using all by blast
    qed
  next
    assume "dropWhile isspace s = []"
    then show "\<forall>c \<in> set (dropWhile isspace s). isspace c" by (simp only: set_empty2 list.set ball_empty)
  qed
  also have "\<dots> \<longleftrightarrow> list_all isspace s"
    by (simp add: dropWhile_eq_Nil_conv list_all_iff)
  finally show ?thesis .
qed

lemma strip_decomp:
  "\<exists>pre post. s = pre @ strip s @ post \<and> list_all isspace pre \<and> list_all isspace post"
proof -
  define t where "t = dropWhile isspace s"
  have s: "s = takeWhile isspace s @ t"
    by (simp add: t_def)
  have "rev (takeWhile isspace (rev t) @ dropWhile isspace (rev t)) = rev (rev t)"
    by (simp only: takeWhile_dropWhile_id)
  then have "rev (dropWhile isspace (rev t)) @ rev (takeWhile isspace (rev t)) = t"
    by (simp only: rev_append rev_rev_ident)
  then have t: "t = strip s @ rev (takeWhile isspace (rev t))"
    by (simp only: strip_def t_def)
  have a: "list_all isspace (takeWhile isspace s)"
    by (auto simp: list_all_iff dest: set_takeWhileD)
  have b: "list_all isspace (rev (takeWhile isspace (rev t)))"
    by (auto simp: list_all_iff dest: set_takeWhileD)
  from s t have "s = takeWhile isspace s @ strip s @ rev (takeWhile isspace (rev t))"
    by simp
  with a b show ?thesis by blast
qed

lemma strip_trimmed: "trimmed (strip s)"
proof (cases "strip s = []")
  case True
  then show ?thesis by (simp add: trimmed_def)
next
  case False
  define t where "t = dropWhile isspace s"
  define d where "d = dropWhile isspace (rev t)"
  have st: "strip s = rev d" by (simp add: strip_def t_def d_def)
  with False have dne: "d \<noteq> []" by simp
  then have tne: "t \<noteq> []" by (auto simp: d_def)
  from dne have "\<not> isspace (hd d)" unfolding d_def by (rule hd_dropWhile)
  then have last_ok: "\<not> isspace (last (strip s))"
    using dne by (simp add: st last_rev)
  have "rev t = takeWhile isspace (rev t) @ d" by (simp add: d_def)
  then have "last (rev t) = last d" using dne by (metis last_appendR)
  then have "hd t = last d" using tne by (simp add: last_rev)
  moreover have "\<not> isspace (hd t)" using tne unfolding t_def by (rule hd_dropWhile)
  ultimately have "\<not> isspace (hd (strip s))"
    using dne by (simp add: st hd_rev)
  with last_ok show ?thesis by (simp add: trimmed_def)
qed

lemma email_of_empty: "email_of r = [] \<longleftrightarrow> list_all isspace (or_empty (dict_get r ''email''))"
  by (simp add: email_of_def strip_empty_iff)

lemma pw_of_empty: "pw_of r = [] \<longleftrightarrow> list_all isspace (or_empty (dict_get r ''app_password''))"
  by (simp add: pw_of_def strip_empty_iff)

text \<open>
  Claim C1. Every input row yields exactly one of a valid pair and a skip record. A row
  is skipped exactly when its email cell or its password cell holds nothing but
  whitespace (an empty, absent or \<open>None\<close> cell included); the other rows give the valid
  pairs, in input order. The reason of a skip is \<open>missing email\<close> when the email cell
  is blank, also when the password cell is blank too, and \<open>missing app_password\<close>
  otherwise; its identity is the trimmed email or, when the email cell is blank,
  \<open>(row N)\<close> with \<open>N\<close> the position of the row counting the header as row 1 (the first
  data row is row 2). The identity and the secret of a row are its cells without the
  whitespace at either end: the cell is the value between two runs of whitespace, and the
  value neither starts nor ends with whitespace.
\<close>

theorem classifier_trims_and_partitions:
  "read_accounts rows =
    (map (\<lambda>r. (email_of r, pw_of r))
       (filter (\<lambda>r. \<not> list_all isspace (or_empty (dict_get r ''email''))
                   \<and> \<not> list_all isspace (or_empty (dict_get r ''app_password''))) rows),
     map (\<lambda>(n, r).
            \<lparr>skip_email = (if list_all isspace (or_empty (dict_get r ''email''))
                            then ''(row '' @ str_nat n @ '')'' else email_of r),
             skip_reason = (if list_all isspace (or_empty (dict_get r ''email''))
                            then ''missing email'' else ''missing app_password'')\<rparr>)
       (filter (\<lambda>(n, r). list_all isspace (or_empty (dict_get r ''email''))
                        \<or> list_all isspace (or_empty (dict_get r ''app_password'')))
          (zip [2 ..< 2 + length rows] rows)))
   \<and> length (fst (read_accounts rows)) + length (snd (read_accounts rows)) = length rows
   \<and> (\<forall>r. \<exists>pre post. or_empty (dict_get r ''email'') = pre @ email_of r @ post
           \<and> list_all isspace pre \<and> list_all isspace post \<and> trimmed (email_of r))
   \<and> (\<forall>r. \<exists>pre post. or_empty (dict_get r ''app_password'') = pre @ pw_of r @ post
           \<and> list_all isspace pre \<and> list_all isspace post \<and> trimmed (pw_of r))"
proof -
  have len: "length (filter (\<lambda>r. email_of r \<noteq> [] \<and> pw_of r \<noteq> []) rows)
      + length (filter (\<lambda>(n, r). email_of r = [] \<or> pw_of r = []) (zip [i ..< i + length rows] rows))
      = length rows" for i
  proof (induction rows arbitrary: i)
    case Nil
    show ?case by simp
  next
    case (Cons r rs)
    have up: "[i ..< i + length (r # rs)] = i # [i + 1 ..< (i + 1) + length rs]"
      by (simp add: upt_rec)
    show ?case
      unfolding up using Cons.IH [of "i + 1"] by auto
  qed
  have closed: "read_accounts rows =
    (map (\<lambda>r. (email_of r, pw_of r))
       (filter (\<lambda>r. email_of r \<noteq> [] \<and> pw_of r \<noteq> []) rows),
     map (\<lambda>(n, r). \<lparr>skip_email = (if email_of r = [] then ''(row '' @ str_nat n @ '')'' else email_of r),
                     skip_reason = (if email_of r = [] then ''missing email''
                                    else ''missing app_password'')\<rparr>)
       (filter (\<lambda>(n, r). email_of r = [] \<or> pw_of r = [])
          (zip [2 ..< 2 + length rows] rows)))"
    unfolding read_accounts_def read_loop_char by (simp add: row_placeholder_def)
  have count: "length (fst (read_accounts rows)) + length (snd (read_accounts rows)) = length rows"
    unfolding closed using len [of 2] by simp
  have em: "\<exists>pre post. or_empty (dict_get r ''email'') = pre @ email_of r @ post
           \<and> list_all isspace pre \<and> list_all isspace post \<and> trimmed (email_of r)" for r
    using strip_decomp [of "or_empty (dict_get r ''email'')"] strip_trimmed
    unfolding email_of_def by blast
  have pw: "\<exists>pre post. or_empty (dict_get r ''app_password'') = pre @ pw_of r @ post
           \<and> list_all isspace pre \<and> list_all isspace post \<and> trimmed (pw_of r)" for r
    using strip_decomp [of "or_empty (dict_get r ''app_password'')"] strip_trimmed
    unfolding pw_of_def by blast
  from closed [unfolded email_of_empty pw_of_empty] count em pw show ?thesis
    by blast
qed

text \<open>
  The scenario of the specification with whitespace added: \<open>a@x.com\<close> and \<open>secret1\<close>
  padded with spaces and a tab, a row whose email is three spaces, and a row whose
  password is one space.
\<close>

theorem classifier_trims_and_partitions_witness:
  "read_accounts
     [[''email'' \<mapsto> Str ''  a@x.com '', ''app_password'' \<mapsto> Str (CHR 0x09 # ''secret1 '')],
      [''email'' \<mapsto> Str ''   '', ''app_password'' \<mapsto> Str ''secret2''],
      [''email'' \<mapsto> Str ''b@x.com'', ''app_password'' \<mapsto> Str '' '']]
   = ([(''a@x.com'', ''secret1'')],
      [\<lparr>skip_email = ''(row 3)'', skip_reason = ''missing email''\<rparr>,
       \<lparr>skip_email = ''b@x.com'', skip_reason = ''missing app_password''\<rparr>])"
  using conjunct1 [OF classifier_trims_and_partitions [of
     "[[''email'' \<mapsto> Str ''  a@x.com '', ''app_password'' \<mapsto> Str (CHR 0x09 # ''secret1 '')],
      [''email'' \<mapsto> Str ''   '', ''app_password'' \<mapsto> Str ''secret2''],
      [''email'' \<mapsto> Str ''b@x.com'', ''app_password'' \<mapsto> Str '' '']]"]]
  by (simp add: email_of_def pw_of_def dict_get_def strip_def isspace_def upt_rec
        str_nat.simps digit_char_def)

subsection \<open>Probe B\<close>

lemmas io_defs = ret_def bind_io_def seq_def try_except_def with_stmt_def do_call_def
  print_def log_def time_time_def time_sleep_def raise_def

lemmas probe_defs = test_imap_def imap_attempt_def test_smtp_def smtp_ssl_attempt_def
  smtp_starttls_attempt_def quit_quietly_def
  IMAP_HOST_def IMAP_PORT_SSL_def SMTP_HOST_def SMTP_PORT_SSL_def SMTP_PORT_STARTTLS_def


lemma log_quiet: "snd (log False h) = h"
  by (simp add: log_def ret_def)

lemma run_ssl_up:
  "smtp_ssl_attempt env_up ''u'' ''p'' 20 False []
     = (Inr (True, []), [SMTP_SSL ''smtp.gmail.com'' 465 20, SMTP_login ''u'' ''p'', SMTP_quit])"
  by (simp add: io_defs probe_defs env_up_def)







subsection \<open>Both probes\<close>

lemma test_imap_unfold:
  "test_imap w u q t v h =
    (case imap_attempt w u q t v h of
       (Inr r, h1) \<Rightarrow> (Inr r, h1)
     | (Inl e, h1) \<Rightarrow> if is_Exception e then (Inr (False, str_exn e), h1) else (Inl e, h1))"
  unfolding test_imap_def try_except_def
  by (auto split: prod.splits sum.splits simp: ret_def)

lemma run_imap_up:
  "imap_attempt env_up ''u'' ''p'' 20 False []
     = (Inr (True, []),
        [IMAP4_SSL ''imap.gmail.com'' 993 20, IMAP_login ''u'' ''p'', IMAP_noop, IMAP_logout, IMAP_exit])"
  by (simp add: io_defs probe_defs env_up_def)

lemma run_imap_rejecting:
  "imap_attempt env_rejecting ''u'' ''p'' 20 False []
     = (Inl (Exception ''bad credentials''),
        [IMAP4_SSL ''imap.gmail.com'' 993 20, IMAP_login ''u'' ''p'', IMAP_exit])"
  by (simp add: io_defs probe_defs env_rejecting_def)

lemma run_ssl_rejecting:
  "smtp_ssl_attempt env_rejecting ''u'' ''p'' 20 False []
     = (Inl (Exception ''bad credentials''),
        [SMTP_SSL ''smtp.gmail.com'' 465 20, SMTP_login ''u'' ''p''])"
  by (simp add: io_defs probe_defs env_rejecting_def)

lemma run_starttls_rejecting:
  "smtp_starttls_attempt env_rejecting ''u'' ''p'' 20 False
      [SMTP_SSL ''smtp.gmail.com'' 465 20, SMTP_login ''u'' ''p'']
     = (Inl (Exception ''bad credentials''),
        [SMTP_SSL ''smtp.gmail.com'' 465 20, SMTP_login ''u'' ''p'',
         SMTP ''smtp.gmail.com'' 587 20, SMTP_ehlo, SMTP_starttls, SMTP_ehlo, SMTP_login ''u'' ''p''])"
  by (simp add: io_defs probe_defs env_rejecting_def)

lemma run_imap_silent:
  "imap_attempt env_silent ''u'' ''p'' 20 False []
     = (Inl (Exception []), [IMAP4_SSL ''imap.gmail.com'' 993 20])"
  by (simp add: io_defs probe_defs env_silent_def)

lemma only_Exceptions_up: "only_Exceptions env_up"
  by (simp add: only_Exceptions_def env_up_def)

lemma only_Exceptions_rejecting: "only_Exceptions env_rejecting"
  by (auto simp: only_Exceptions_def env_rejecting_def split: call.splits)

lemma only_Exceptions_smtp_down: "only_Exceptions env_smtp_down"
  by (auto simp: only_Exceptions_def env_smtp_down_def split: call.splits)

lemma only_Exceptions_fallback: "only_Exceptions env_fallback"
  by (auto simp: only_Exceptions_def env_fallback_def split: call.splits)

text \<open>
  Claim C4. When every failure of a library call is an exception of class \<open>Exception\<close>
  (connection, TLS, protocol, authentication and timeout failures are), no exception
  leaves either probe: \<open>test_imap\<close> returns \<open>(True, "")\<close> when its attempt returns and
  \<open>(False, str(e))\<close> when its attempt raises \<open>e\<close>; \<open>test_smtp\<close> returns \<open>(True, "")\<close>, or
  \<open>False\<close> with the strings of the two causes, each under the label of its attempt.
\<close>

theorem probes_capture_failures:
  assumes "only_Exceptions w"
  shows "(\<exists>r h'. test_imap w u q t v h = (Inr r, h'))
       \<and> (\<forall>r h1. imap_attempt w u q t v h = (Inr r, h1)
              \<longrightarrow> test_imap w u q t v h = (Inr (True, []), h1))
       \<and> (\<forall>x h1. imap_attempt w u q t v h = (Inl x, h1)
              \<longrightarrow> test_imap w u q t v h = (Inr (False, str_exn x), h1))
       \<and> (\<exists>r h'. test_smtp w u q t v h = (Inr r, h'))
       \<and> (\<forall>x1 h1 x2 h2. smtp_ssl_attempt w u q t v h = (Inl x1, h1)
              \<and> smtp_starttls_attempt w u q t v (snd (log v h1)) = (Inl x2, h2)
              \<longrightarrow> test_smtp w u q t v h
                   = (Inr (False, ''SSL:'' @ str_exn x1 @ ''; STARTTLS:'' @ str_exn x2), h2))
       \<and> (\<forall>ok d h'. test_smtp w u q t v h = (Inr (ok, d), h') \<longrightarrow>
              (if ok then d = []
               else \<exists>x1 h1 x2. smtp_ssl_attempt w u q t v h = (Inl x1, h1)
                      \<and> smtp_starttls_attempt w u q t v (snd (log v h1)) = (Inl x2, h')
                      \<and> d = ''SSL:'' @ str_exn x1 @ ''; STARTTLS:'' @ str_exn x2))"
proof (intro conjI allI impI)
  obtain r h' where run: "test_imap w u q t v h = (r, h')"
    by (cases "test_imap w u q t v h")
  from test_imap_cases [OF run] assms show "\<exists>r h'. test_imap w u q t v h = (Inr r, h')"
    unfolding run by (auto simp: only_Exceptions_def raised_in_def)
next
  fix r h1
  assume a: "imap_attempt w u q t v h = (Inr r, h1)"
  from yieldsD [OF imap_attempt_yields a] have "r = (True, [])" .
  with a show "test_imap w u q t v h = (Inr (True, []), h1)"
    by (simp add: test_imap_unfold)
next
  fix x h1
  assume a: "imap_attempt w u q t v h = (Inl x, h1)"
  from raisingD [OF imap_attempt_catchable [OF assms] a] have "is_Exception x" .
  with a show "test_imap w u q t v h = (Inr (False, str_exn x), h1)"
    by (simp add: test_imap_unfold)
next
  obtain r h' where run: "test_smtp w u q t v h = (r, h')"
    by (cases "test_smtp w u q t v h")
  from test_smtp_cases [OF run] assms show "\<exists>r h'. test_smtp w u q t v h = (Inr r, h')"
    unfolding run by (auto simp: only_Exceptions_def raised_in_def)
next
  fix x1 h1 x2 h2
  assume a: "smtp_ssl_attempt w u q t v h = (Inl x1, h1)
              \<and> smtp_starttls_attempt w u q t v (snd (log v h1)) = (Inl x2, h2)"
  from raisingD [OF smtp_ssl_attempt_catchable [OF assms] conjunct1 [OF a]]
  have x1: "is_Exception x1" .
  from raisingD [OF smtp_starttls_attempt_catchable [OF assms] conjunct2 [OF a]]
  have x2: "is_Exception x2" .
  from a x1 x2
  show "test_smtp w u q t v h
          = (Inr (False, ''SSL:'' @ str_exn x1 @ ''; STARTTLS:'' @ str_exn x2), h2)"
    by (simp add: test_smtp_unfold)
next
  fix ok d h'
  assume run: "test_smtp w u q t v h = (Inr (ok, d), h')"
  obtain r1 h1 where one: "smtp_ssl_attempt w u q t v h = (r1, h1)"
    by (cases "smtp_ssl_attempt w u q t v h")
  obtain r2 h2 where two: "smtp_starttls_attempt w u q t v (snd (log v h1)) = (r2, h2)"
    by (cases "smtp_starttls_attempt w u q t v (snd (log v h1))")
  show "if ok then d = []
        else \<exists>x1 h1 x2. smtp_ssl_attempt w u q t v h = (Inl x1, h1)
               \<and> smtp_starttls_attempt w u q t v (snd (log v h1)) = (Inl x2, h')
               \<and> d = ''SSL:'' @ str_exn x1 @ ''; STARTTLS:'' @ str_exn x2"
  proof (cases r1)
    case (Inr val)
    from yieldsD [OF smtp_ssl_attempt_yields one [unfolded Inr]] have "val = (True, [])" .
    with run one Inr show ?thesis by (auto simp: test_smtp_unfold)
  next
    case (Inl x1)
    note r1 = this
    from raisingD [OF smtp_ssl_attempt_catchable [OF assms] one [unfolded Inl]]
    have x1: "is_Exception x1" .
    show ?thesis
    proof (cases r2)
      case (Inr val)
      from yieldsD [OF smtp_starttls_attempt_yields two [unfolded Inr]] have "val = (True, [])" .
      with run one two r1 x1 Inr show ?thesis by (auto simp: test_smtp_unfold)
    next
      case (Inl x2)
      from raisingD [OF smtp_starttls_attempt_catchable [OF assms] two [unfolded Inl]]
      have "is_Exception x2" .
      with run one two r1 x1 Inl show ?thesis by (auto simp: test_smtp_unfold)
    qed
  qed
qed

text \<open>
  A server that accepts the connections and rejects every login, and one where every
  call returns.
\<close>

theorem probes_capture_failures_witness:
  "only_Exceptions env_rejecting \<and> only_Exceptions env_up
   \<and> test_imap env_rejecting ''u'' ''p'' 20 False []
       = (Inr (False, ''bad credentials''),
          [IMAP4_SSL ''imap.gmail.com'' 993 20, IMAP_login ''u'' ''p'', IMAP_exit])
   \<and> test_imap env_up ''u'' ''p'' 20 False []
       = (Inr (True, []),
          [IMAP4_SSL ''imap.gmail.com'' 993 20, IMAP_login ''u'' ''p'', IMAP_noop, IMAP_logout,
           IMAP_exit])
   \<and> test_smtp env_rejecting ''u'' ''p'' 20 False []
       = (Inr (False, ''SSL:bad credentials; STARTTLS:bad credentials''),
          [SMTP_SSL ''smtp.gmail.com'' 465 20, SMTP_login ''u'' ''p'',
           SMTP ''smtp.gmail.com'' 587 20, SMTP_ehlo, SMTP_starttls, SMTP_ehlo,
           SMTP_login ''u'' ''p''])"
proof -
  note rej = probes_capture_failures [OF only_Exceptions_rejecting, of "''u''" "''p''" 20 False "[]"]
  note up = probes_capture_failures [OF only_Exceptions_up, of "''u''" "''p''" 20 False "[]"]
  have a: "test_imap env_rejecting ''u'' ''p'' 20 False []
       = (Inr (False, str_exn (Exception ''bad credentials'')),
          [IMAP4_SSL ''imap.gmail.com'' 993 20, IMAP_login ''u'' ''p'', IMAP_exit])"
    by (rule rej [THEN conjunct2, THEN conjunct2, THEN conjunct1, rule_format,
          OF run_imap_rejecting])
  have b: "test_imap env_up ''u'' ''p'' 20 False []
       = (Inr (True, []),
          [IMAP4_SSL ''imap.gmail.com'' 993 20, IMAP_login ''u'' ''p'', IMAP_noop, IMAP_logout,
           IMAP_exit])"
    by (rule up [THEN conjunct2, THEN conjunct1, rule_format, OF run_imap_up])
  have c: "test_smtp env_rejecting ''u'' ''p'' 20 False []
       = (Inr (False, ''SSL:'' @ str_exn (Exception ''bad credentials'') @ ''; STARTTLS:''
                 @ str_exn (Exception ''bad credentials'')),
          [SMTP_SSL ''smtp.gmail.com'' 465 20, SMTP_login ''u'' ''p'',
           SMTP ''smtp.gmail.com'' 587 20, SMTP_ehlo, SMTP_starttls, SMTP_ehlo,
           SMTP_login ''u'' ''p''])"
    by (rule rej [THEN conjunct2, THEN conjunct2, THEN conjunct2, THEN conjunct2, THEN conjunct1,
          rule_format, OF conjI [OF run_ssl_rejecting]])
       (simp only: log_quiet run_starttls_rejecting)
  from a b c only_Exceptions_rejecting only_Exceptions_up show ?thesis by simp
qed

subsection \<open>The report\<close>

lemma write_results_char: "write_results rs f = f @ map result_line rs"
  by (induction rs arbitrary: f) simp_all

lemma write_skips_char: "write_skips ss f = f @ map skip_line ss"
  by (induction ss arbitrary: f) simp_all

lemma write_report_char:
  "write_report rs ss = header_row # map result_line rs @ map skip_line ss"
  by (simp add: write_report_def write_results_char write_skips_char)

text \<open>
  Claim C7. The report starts with the header \<open>email, imap_ok, imap_error, smtp_ok,
  smtp_error, elapsed_s\<close>. The row of a tested record holds its identity, \<open>OK\<close> or
  \<open>FAIL\<close> for each probe (\<open>OK\<close> exactly when the probe reported success), the two
  details and the elapsed time; the row of a skip record holds its identity, \<open>SKIP\<close>
  twice, the reason in both error columns and an empty \<open>elapsed_s\<close>.
\<close>

theorem report_schema:
  "hd (write_report rs ss)
     = [Text ''email'', Text ''imap_ok'', Text ''imap_error'',
        Text ''smtp_ok'', Text ''smtp_error'', Text ''elapsed_s'']
   \<and> length (write_report rs ss) = 1 + length rs + length ss
   \<and> (\<forall>i < length rs. write_report rs ss ! (1 + i)
         = [Text (email (rs ! i)),
            Text (if imap_ok (rs ! i) then ''OK'' else ''FAIL''),
            Text (imap_error (rs ! i)),
            Text (if smtp_ok (rs ! i) then ''OK'' else ''FAIL''),
            Text (smtp_error (rs ! i)),
            Number (elapsed_s (rs ! i))])
   \<and> (\<forall>j < length ss. write_report rs ss ! (1 + length rs + j)
         = [Text (skip_email (ss ! j)), Text ''SKIP'', Text (skip_reason (ss ! j)),
            Text ''SKIP'', Text (skip_reason (ss ! j)), Text []])"
  by (simp add: write_report_char header_row_def result_line_def skip_line_def nth_append)

text \<open>A report of one tested record and one skip record.\<close>

theorem report_schema_witness:
  "write_report
     [\<lparr>email = ''a@x.com'', imap_ok = True, imap_error = [], smtp_ok = False,
       smtp_error = ''SSL:refused; STARTTLS:no tls'', elapsed_s = 5 / 4\<rparr>]
     [\<lparr>skip_email = ''(row 3)'', skip_reason = ''missing email''\<rparr>] ! (1 + 0)
   = [Text ''a@x.com'', Text ''OK'', Text [], Text ''FAIL'',
      Text ''SSL:refused; STARTTLS:no tls'', Number (5 / 4)]
   \<and> write_report
     [\<lparr>email = ''a@x.com'', imap_ok = True, imap_error = [], smtp_ok = False,
       smtp_error = ''SSL:refused; STARTTLS:no tls'', elapsed_s = 5 / 4\<rparr>]
     [\<lparr>skip_email = ''(row 3)'', skip_reason = ''missing email''\<rparr>] ! (1 + 1 + 0)
   = [Text ''(row 3)'', Text ''SKIP'', Text ''missing email'', Text ''SKIP'',
      Text ''missing email'', Text []]
   \<and> length (write_report
     [\<lparr>email = ''a@x.com'', imap_ok = True, imap_error = [], smtp_ok = False,
       smtp_error = ''SSL:refused; STARTTLS:no tls'', elapsed_s = 5 / 4\<rparr>]
     [\<lparr>skip_email = ''(row 3)'', skip_reason = ''missing email''\<rparr>]) = 3"
proof -
  note th = report_schema [of
     "[\<lparr>email = ''a@x.com'', imap_ok = True, imap_error = [], smtp_ok = False,
       smtp_error = ''SSL:refused; STARTTLS:no tls'', elapsed_s = 5 / 4\<rparr>]"
     "[\<lparr>skip_email = ''(row 3)'', skip_reason = ''missing email''\<rparr>]"]
  from th [THEN conjunct2, THEN conjunct2, THEN conjunct1, rule_format, of 0]
       th [THEN conjunct2, THEN conjunct2, THEN conjunct2, rule_format, of 0]
       th [THEN conjunct2, THEN conjunct1]
  show ?thesis by simp
qed

subsection \<open>Absent cells\<close>

lemma read_loop_snoc:
  "read_loop i (rows @ [r]) valid skipped =
     (case read_loop i rows valid skipped of
        (valid', skipped') \<Rightarrow> read_loop (i + length rows) [r] valid' skipped')"
proof (induction rows arbitrary: i valid skipped)
  case Nil
  show ?case by simp
next
  case (Cons a rows)
  show ?case by (simp add: Cons.IH Let_def)
qed

lemma read_accounts_snoc:
  "read_accounts (rows @ [r]) =
     (if email_of r = [] \<or> pw_of r = []
      then (fst (read_accounts rows),
            snd (read_accounts rows)
              @ [\<lparr>skip_email = (if email_of r \<noteq> [] then email_of r
                                else ''(row '' @ str_nat (length rows + 2) @ '')''),
                  skip_reason = (if email_of r = [] then ''missing email''
                                 else ''missing app_password'')\<rparr>])
      else (fst (read_accounts rows) @ [(email_of r, pw_of r)], snd (read_accounts rows)))"
  unfolding read_accounts_def read_loop_snoc
  by (simp add: Let_def row_placeholder_def add.commute split: prod.splits)





subsection \<open>The detail of a probe's outcome\<close>

text \<open>
  Claim C8, as amended. Whenever a probe reports success its detail is empty. Whenever
  Probe A reports failure its detail is \<open>str(e)\<close> of the exception \<open>e\<close> that its attempt
  raised, which is empty when the message of \<open>e\<close> is; whenever Probe B reports failure its
  detail is \<open>SSL:\<close>, the string of the first cause, \<open>; STARTTLS:\<close> and the string of the
  second cause, which is never empty.
\<close>

theorem probe_outcome_detail:
  "(\<forall>ok d h'. test_imap w u q t v h = (Inr (ok, d), h') \<longrightarrow>
      (if ok then d = []
       else \<exists>x. imap_attempt w u q t v h = (Inl x, h') \<and> d = str_exn x))
   \<and> (\<forall>ok d h'. test_smtp w u q t v h = (Inr (ok, d), h') \<longrightarrow>
      (if ok then d = []
       else d \<noteq> []
          \<and> (\<exists>x1 h1 x2. smtp_ssl_attempt w u q t v h = (Inl x1, h1)
                \<and> smtp_starttls_attempt w u q t v (snd (log v h1)) = (Inl x2, h')
                \<and> d = ''SSL:'' @ str_exn x1 @ ''; STARTTLS:'' @ str_exn x2)))"
proof (intro conjI allI impI)
  fix ok d h'
  assume run: "test_imap w u q t v h = (Inr (ok, d), h')"
  obtain r1 h1 where one: "imap_attempt w u q t v h = (r1, h1)"
    by (cases "imap_attempt w u q t v h")
  show "if ok then d = [] else \<exists>x. imap_attempt w u q t v h = (Inl x, h') \<and> d = str_exn x"
  proof (cases r1)
    case (Inr val)
    from yieldsD [OF imap_attempt_yields one [unfolded Inr]] have "val = (True, [])" .
    with run one Inr show ?thesis by (auto simp: test_imap_unfold)
  next
    case (Inl x)
    with run one show ?thesis by (auto simp: test_imap_unfold split: if_splits)
  qed
next
  fix ok d h'
  assume run: "test_smtp w u q t v h = (Inr (ok, d), h')"
  obtain r1 h1 where one: "smtp_ssl_attempt w u q t v h = (r1, h1)"
    by (cases "smtp_ssl_attempt w u q t v h")
  obtain r2 h2 where two: "smtp_starttls_attempt w u q t v (snd (log v h1)) = (r2, h2)"
    by (cases "smtp_starttls_attempt w u q t v (snd (log v h1))")
  show "if ok then d = []
        else d \<noteq> []
          \<and> (\<exists>x1 h1 x2. smtp_ssl_attempt w u q t v h = (Inl x1, h1)
                \<and> smtp_starttls_attempt w u q t v (snd (log v h1)) = (Inl x2, h')
                \<and> d = ''SSL:'' @ str_exn x1 @ ''; STARTTLS:'' @ str_exn x2)"
  proof (cases r1)
    case (Inr val)
    from yieldsD [OF smtp_ssl_attempt_yields one [unfolded Inr]] have "val = (True, [])" .
    with run one Inr show ?thesis by (auto simp: test_smtp_unfold)
  next
    case (Inl x1)
    note r1 = this
    show ?thesis
    proof (cases r2)
      case (Inr val)
      from yieldsD [OF smtp_starttls_attempt_yields two [unfolded Inr]] have "val = (True, [])" .
      with run one two r1 Inr show ?thesis by (auto simp: test_smtp_unfold split: if_splits)
    next
      case (Inl x2)
      with run one two r1 show ?thesis by (auto simp: test_smtp_unfold split: if_splits)
    qed
  qed
qed

lemma run_test_imap_rejecting:
  "test_imap env_rejecting ''u'' ''p'' 20 False []
     = (Inr (False, ''bad credentials''),
        [IMAP4_SSL ''imap.gmail.com'' 993 20, IMAP_login ''u'' ''p'', IMAP_exit])"
  by (simp add: test_imap_unfold run_imap_rejecting)

lemma run_test_smtp_rejecting:
  "test_smtp env_rejecting ''u'' ''p'' 20 False []
     = (Inr (False, ''SSL:bad credentials; STARTTLS:bad credentials''),
          [SMTP_SSL ''smtp.gmail.com'' 465 20, SMTP_login ''u'' ''p'',
           SMTP ''smtp.gmail.com'' 587 20, SMTP_ehlo, SMTP_starttls, SMTP_ehlo,
           SMTP_login ''u'' ''p''])"
  by (simp add: test_smtp_unfold run_ssl_rejecting run_starttls_rejecting log_quiet)

lemma run_test_imap_up:
  "test_imap env_up ''u'' ''p'' 20 False []
     = (Inr (True, []),
        [IMAP4_SSL ''imap.gmail.com'' 993 20, IMAP_login ''u'' ''p'', IMAP_noop, IMAP_logout,
         IMAP_exit])"
  by (simp add: test_imap_unfold run_imap_up)

lemma run_test_smtp_up:
  "test_smtp env_up ''u'' ''p'' 20 False []
     = (Inr (True, []), [SMTP_SSL ''smtp.gmail.com'' 465 20, SMTP_login ''u'' ''p'', SMTP_quit])"
  by (simp add: test_smtp_unfold run_ssl_up)

text \<open>The server that rejects every login: both details carry the cause.\<close>

theorem probe_outcome_detail_witness:
  "(\<exists>x. imap_attempt env_rejecting ''u'' ''p'' 20 False []
           = (Inl x, [IMAP4_SSL ''imap.gmail.com'' 993 20, IMAP_login ''u'' ''p'', IMAP_exit])
        \<and> ''bad credentials'' = str_exn x)
   \<and> (\<exists>x1 h1 x2. smtp_ssl_attempt env_rejecting ''u'' ''p'' 20 False [] = (Inl x1, h1)
        \<and> smtp_starttls_attempt env_rejecting ''u'' ''p'' 20 False (snd (log False h1))
           = (Inl x2, [SMTP_SSL ''smtp.gmail.com'' 465 20, SMTP_login ''u'' ''p'',
                       SMTP ''smtp.gmail.com'' 587 20, SMTP_ehlo, SMTP_starttls, SMTP_ehlo,
                       SMTP_login ''u'' ''p''])
        \<and> ''SSL:bad credentials; STARTTLS:bad credentials''
           = ''SSL:'' @ str_exn x1 @ ''; STARTTLS:'' @ str_exn x2)"
proof -
  note th = probe_outcome_detail [of env_rejecting "''u''" "''p''" 20 False "[]"]
  from th [THEN conjunct1, rule_format, OF run_test_imap_rejecting]
       th [THEN conjunct2, rule_format, OF run_test_smtp_rejecting]
  show ?thesis by simp
qed

text \<open>
  An exception with an empty message, such as \<open>MemoryError()\<close>: Probe A reports failure
  with an empty detail.
\<close>

theorem empty_detail_counterexample:
  "imap_attempt env_silent ''u'' ''p'' 20 False []
     = (Inl (Exception []), [IMAP4_SSL ''imap.gmail.com'' 993 20])
   \<and> test_imap env_silent ''u'' ''p'' 20 False []
     = (Inr (False, []), [IMAP4_SSL ''imap.gmail.com'' 993 20])"
  by (simp add: test_imap_unfold run_imap_silent)

subsection \<open>The calls of a statement\<close>

lemma emitsD: "emits Q m \<Longrightarrow> m h = (x, h') \<Longrightarrow> \<exists>ext. h' = h @ ext \<and> list_all Q ext"
  unfolding emits_def by blast

lemma emits_ret: "emits Q (ret v)"
  by (simp add: emits_def ret_def)

lemma emits_raise: "emits Q (raise e)"
  by (simp add: emits_def raise_def)

lemma emits_print: "Q Print \<Longrightarrow> emits Q print"
  by (simp add: emits_def print_def)

lemma emits_log: "Q Print \<Longrightarrow> emits Q (log v)"
  by (simp add: log_def emits_print emits_ret)

lemma emits_do_call: "Q c \<Longrightarrow> emits Q (do_call w c)"
  by (simp add: emits_def do_call_def)

lemma emits_time_time: "Q Time \<Longrightarrow> emits Q (time_time w)"
  by (simp add: emits_def time_time_def)

lemma emits_time_sleep: "Q (Sleep d) \<Longrightarrow> emits Q (time_sleep d)"
  by (auto simp: emits_def time_sleep_def split: if_splits)

lemma emits_bind:
  assumes "emits Q m" and "\<And>v. emits Q (k v)"
  shows "emits Q (bind_io m k)"
  unfolding emits_def
proof (intro allI impI)
  fix h x h'
  assume run: "bind_io m k h = (x, h')"
  obtain r h1 where one: "m h = (r, h1)" by (cases "m h")
  from emitsD [OF assms(1) one] obtain e1 where e1: "h1 = h @ e1" "list_all Q e1" by blast
  show "\<exists>ext. h' = h @ ext \<and> list_all Q ext"
  proof (cases r)
    case (Inl e)
    with run one e1 show ?thesis by (auto simp: bind_io_def)
  next
    case (Inr val)
    with run one have "k val h1 = (x, h')" by (simp add: bind_io_def)
    from emitsD [OF assms(2) this] obtain e2 where "h' = h1 @ e2" "list_all Q e2" by blast
    with e1 have "h' = h @ (e1 @ e2) \<and> list_all Q (e1 @ e2)" by simp
    then show ?thesis by blast
  qed
qed

lemma emits_seq: "emits Q m \<Longrightarrow> emits Q n \<Longrightarrow> emits Q (seq m n)"
  by (simp add: seq_def emits_bind)

lemma emits_try:
  assumes "emits Q body" and "\<And>e. emits Q (handler e)"
  shows "emits Q (try_except body handler)"
  unfolding emits_def
proof (intro allI impI)
  fix h x h'
  assume run: "try_except body handler h = (x, h')"
  from run show "\<exists>ext. h' = h @ ext \<and> list_all Q ext"
  proof (cases rule: try_except_cases)
    case (returned val)
    from emitsD [OF assms(1) returned(1)] show ?thesis .
  next
    case (caught e h1)
    from emitsD [OF assms(1) caught(1)] obtain e1 where e1: "h1 = h @ e1" "list_all Q e1" by blast
    from emitsD [OF assms(2) caught(3)] obtain e2 where "h' = h1 @ e2" "list_all Q e2" by blast
    with e1 have "h' = h @ (e1 @ e2) \<and> list_all Q (e1 @ e2)" by simp
    then show ?thesis by blast
  next
    case (escaped e)
    from emitsD [OF assms(1) escaped(1)] show ?thesis .
  qed
qed

lemma emits_with:
  assumes "emits Q mk" and "emits Q exit" and "emits Q body"
  shows "emits Q (with_stmt mk exit body)"
  unfolding with_stmt_def
proof (rule emits_bind [OF assms(1)])
  fix u :: unit
  show "emits Q (\<lambda>h. case body h of
         (r, h') \<Rightarrow> (case exit h' of (Inl e', h'') \<Rightarrow> (Inl e', h'') | (Inr _, h'') \<Rightarrow> (r, h'')))"
    unfolding emits_def
  proof (intro allI impI)
    fix h x h'
    assume run: "(case body h of
         (r, h') \<Rightarrow> (case exit h' of (Inl e', h'') \<Rightarrow> (Inl e', h'') | (Inr _, h'') \<Rightarrow> (r, h'')))
        = (x, h')"
    obtain r h1 where one: "body h = (r, h1)" by (cases "body h")
    obtain r2 h2 where two: "exit h1 = (r2, h2)" by (cases "exit h1")
    from emitsD [OF assms(3) one] obtain e1 where e1: "h1 = h @ e1" "list_all Q e1" by blast
    from emitsD [OF assms(2) two] obtain e2 where e2: "h2 = h1 @ e2" "list_all Q e2" by blast
    from run one two have "h' = h2" by (cases r2) auto
    with e1 e2 have "h' = h @ (e1 @ e2) \<and> list_all Q (e1 @ e2)" by simp
    then show "\<exists>ext. h' = h @ ext \<and> list_all Q ext" by blast
  qed
qed

subsection \<open>The verifier\<close>

lemma test_imap_returns:
  assumes "only_Exceptions w"
  shows "\<exists>a d h'. test_imap w u q t v h = (Inr (a, d), h')"
proof -
  obtain r h' where run: "test_imap w u q t v h = (r, h')"
    by (cases "test_imap w u q t v h")
  from test_imap_cases [OF run] assms show ?thesis
    unfolding run by (auto simp: only_Exceptions_def raised_in_def)
qed

lemma test_smtp_returns:
  assumes "only_Exceptions w"
  shows "\<exists>a d h'. test_smtp w u q t v h = (Inr (a, d), h')"
proof -
  obtain r h' where run: "test_smtp w u q t v h = (r, h')"
    by (cases "test_smtp w u q t v h")
  from test_smtp_cases [OF run] assms show ?thesis
    unfolding run by (auto simp: only_Exceptions_def raised_in_def)
qed

lemma quit_quietly_emits: "emits (\<lambda>c. True) (quit_quietly w)"
  unfolding quit_quietly_def
  by (intro emits_try emits_do_call emits_ret) simp_all

lemma smtp_starttls_attempt_emits: "emits (\<lambda>c. True) (smtp_starttls_attempt w u q t v)"
  unfolding smtp_starttls_attempt_def
  by (intro emits_seq emits_do_call emits_log emits_ret quit_quietly_emits) simp_all

lemma test_smtp_starts:
  assumes "test_smtp w u q t v h = (x, h')"
  shows "\<exists>ext. h' = snd (log v h) @ SMTP_SSL SMTP_HOST SMTP_PORT_SSL t # ext"
proof -
  define h0 where "h0 = snd (log v h)"
  define c where "c = SMTP_SSL SMTP_HOST SMTP_PORT_SSL t"
  define rest :: "(bool \<times> string) io" where "rest = seq (log v) (seq (do_call w (SMTP_login u q))
      (seq (quit_quietly w) (ret (True, []))))"
  have rest: "emits (\<lambda>c. True) rest"
    unfolding rest_def
    by (intro emits_seq emits_do_call emits_log emits_ret quit_quietly_emits) simp_all
  have att: "smtp_ssl_attempt w u q t v h = seq (do_call w c) rest h0"
    by (simp add: smtp_ssl_attempt_def seq_log h0_def c_def rest_def)
  obtain r1 h1 where one: "smtp_ssl_attempt w u q t v h = (r1, h1)"
    by (cases "smtp_ssl_attempt w u q t v h")
  have h1: "\<exists>e1. h1 = h0 @ c # e1"
  proof (cases "raises w h0 c")
    case None
    then have "rest (h0 @ [c]) = (r1, h1)"
      using one att by (simp add: seq_def bind_io_def do_call_def)
    from emitsD [OF rest this] show ?thesis by auto
  next
    case (Some e)
    then have "h1 = h0 @ [c]"
      using one att by (simp add: seq_def bind_io_def do_call_def)
    then show ?thesis by simp
  qed
  then obtain e1 where e1: "h1 = h0 @ c # e1" ..
  have handler: "emits (\<lambda>c. True) (seq (log v)
            (try_except (smtp_starttls_attempt w u q t v)
               (\<lambda>e_tls. ret (False, ''SSL:'' @ str_exn e_ssl @ ''; STARTTLS:'' @ str_exn e_tls))))"
    for e_ssl
    by (intro emits_seq emits_log emits_try smtp_starttls_attempt_emits emits_ret) simp
  from assms [unfolded test_smtp_def] have "\<exists>e2. h' = h1 @ e2"
  proof (cases rule: try_except_cases)
    case (returned val)
    with one show ?thesis by simp
  next
    case (caught e hh)
    with one have "hh = h1" by simp
    with emitsD [OF handler caught(3)] show ?thesis by auto
  next
    case (escaped e)
    with one show ?thesis by simp
  qed
  with e1 show ?thesis unfolding h0_def c_def by auto
qed

lemma round_half_even_near: "\<bar>of_int (round_half_even x) - x\<bar> \<le> 1 / 2"
proof -
  have a: "of_int \<lfloor>x\<rfloor> \<le> x" and b: "x < of_int \<lfloor>x\<rfloor> + 1"
    by linarith+
  show ?thesis
    unfolding round_half_even_def Let_def using a b
    by (simp add: abs_if) linarith
qed

lemma round2_near: "\<bar>round2 x - x\<bar> \<le> 1 / 200"
proof -
  have "\<bar>of_int (round_half_even (x * 100)) - x * 100\<bar> \<le> 1 / 2"
    by (rule round_half_even_near)
  then show ?thesis
    unfolding round2_def by (simp add: abs_if field_simps split: if_splits)
qed

lemma round2_hundredths: "\<exists>n :: int. round2 x = of_int n / 100"
  unfolding round2_def by blast

text \<open>
  Claim C6. For failures of class \<open>Exception\<close> and a non-negative pause, \<open>test_one\<close>
  reads the clock, runs Probe A, sleeps for the pause, runs Probe B (whose first call, the
  connection to port 465, is made whatever Probe A returned), reads the clock again, and
  returns one record: the identity it was given, the two outcomes, and the difference of
  the two clock readings rounded to a multiple of one hundredth at most half a hundredth
  away.
\<close>

theorem verifier_order_and_time:
  assumes "only_Exceptions w" and "0 \<le> pause"
  shows "\<exists>a da h1 b db h2 ext.
      test_imap w u q t v (h @ [Time]) = (Inr (a, da), h1)
    \<and> test_smtp w u q t v (h1 @ [Sleep pause]) = (Inr (b, db), h2)
    \<and> h2 = snd (log v (h1 @ [Sleep pause])) @ SMTP_SSL SMTP_HOST SMTP_PORT_SSL t # ext
    \<and> test_one w u q t v pause h
        = (Inr \<lparr>email = u, imap_ok = a, imap_error = da, smtp_ok = b, smtp_error = db,
                elapsed_s = round2 (clock w h2 - clock w h)\<rparr>,
           h2 @ [Time])
    \<and> (\<exists>n :: int. round2 (clock w h2 - clock w h) = of_int n / 100)
    \<and> \<bar>round2 (clock w h2 - clock w h) - (clock w h2 - clock w h)\<bar> \<le> 1 / 200"
proof -
  from test_imap_returns [OF assms(1)] obtain a da h1
    where A: "test_imap w u q t v (h @ [Time]) = (Inr (a, da), h1)" by blast
  from test_smtp_returns [OF assms(1)] obtain b db h2
    where B: "test_smtp w u q t v (h1 @ [Sleep pause]) = (Inr (b, db), h2)" by blast
  from test_smtp_starts [OF B] obtain ext
    where S: "h2 = snd (log v (h1 @ [Sleep pause])) @ SMTP_SSL SMTP_HOST SMTP_PORT_SSL t # ext" ..
  have run: "test_one w u q t v pause h
        = (Inr \<lparr>email = u, imap_ok = a, imap_error = da, smtp_ok = b, smtp_error = db,
                elapsed_s = round2 (clock w h2 - clock w h)\<rparr>,
           h2 @ [Time])"
    using A B assms(2)
    by (simp add: test_one_def bind_io_def seq_def time_time_def time_sleep_def ret_def)
  show ?thesis
    by (intro exI conjI) (rule A B S run round2_def round2_near)+
qed

lemma run_test_imap_up_at:
  "test_imap env_up ''u'' ''p'' 20 False [Time]
     = (Inr (True, []),
        [Time, IMAP4_SSL ''imap.gmail.com'' 993 20, IMAP_login ''u'' ''p'', IMAP_noop, IMAP_logout,
         IMAP_exit])"
  by (simp add: io_defs probe_defs env_up_def)

lemma run_test_smtp_up_at:
  "test_smtp env_up ''u'' ''p'' 20 False
      [Time, IMAP4_SSL ''imap.gmail.com'' 993 20, IMAP_login ''u'' ''p'', IMAP_noop, IMAP_logout,
       IMAP_exit, Sleep (1 / 2)]
     = (Inr (True, []),
        [Time, IMAP4_SSL ''imap.gmail.com'' 993 20, IMAP_login ''u'' ''p'', IMAP_noop, IMAP_logout,
         IMAP_exit, Sleep (1 / 2), SMTP_SSL ''smtp.gmail.com'' 465 20, SMTP_login ''u'' ''p'',
         SMTP_quit])"
  by (simp add: test_smtp_unfold smtp_ssl_attempt_def quit_quietly_def io_defs
        SMTP_HOST_def SMTP_PORT_SSL_def env_up_def)

lemma round2_tie: "round2 (5 / 8) = 31 / 50"
proof -
  have f: "\<lfloor>125 / 2 :: rat\<rfloor> = 62"
    by (rule floor_unique) simp_all
  have "round_half_even (125 / 2) = 62"
    by (simp add: round_half_even_def Let_def f)
  then show ?thesis by (simp add: round2_def)
qed

text \<open>
  A run in which every call returns, by a clock that advances a sixteenth of a second
  with every call: ten calls lie between the two readings, and the 0.625 seconds are
  rounded to 0.62.
\<close>

theorem verifier_order_and_time_witness:
  "test_one env_up ''u'' ''p'' 20 False (1 / 2) []
     = (Inr \<lparr>email = ''u'', imap_ok = True, imap_error = [], smtp_ok = True, smtp_error = [],
             elapsed_s = 31 / 50\<rparr>,
        [Time, IMAP4_SSL ''imap.gmail.com'' 993 20, IMAP_login ''u'' ''p'', IMAP_noop, IMAP_logout,
         IMAP_exit, Sleep (1 / 2), SMTP_SSL ''smtp.gmail.com'' 465 20, SMTP_login ''u'' ''p'',
         SMTP_quit, Time])"
proof -
  have "(0 :: rat) \<le> 1 / 2" by simp
  from verifier_order_and_time [OF only_Exceptions_up this, of "''u''" "''p''" 20 False "[]"]
  obtain a da h1 b db h2 where
    A: "test_imap env_up ''u'' ''p'' 20 False ([] @ [Time]) = (Inr (a, da), h1)" and
    B: "test_smtp env_up ''u'' ''p'' 20 False (h1 @ [Sleep (1 / 2)]) = (Inr (b, db), h2)" and
    R: "test_one env_up ''u'' ''p'' 20 False (1 / 2) []
        = (Inr \<lparr>email = ''u'', imap_ok = a, imap_error = da, smtp_ok = b, smtp_error = db,
                elapsed_s = round2 (clock env_up h2 - clock env_up [])\<rparr>,
           h2 @ [Time])"
    by blast
  from A have a: "a = True" "da = []"
    and h1: "h1 = [Time, IMAP4_SSL ''imap.gmail.com'' 993 20, IMAP_login ''u'' ''p'', IMAP_noop,
        IMAP_logout, IMAP_exit]"
    by (simp_all add: run_test_imap_up_at)
  from B have b: "b = True" "db = []"
    and h2: "h2 = [Time, IMAP4_SSL ''imap.gmail.com'' 993 20, IMAP_login ''u'' ''p'', IMAP_noop,
         IMAP_logout, IMAP_exit, Sleep (1 / 2), SMTP_SSL ''smtp.gmail.com'' 465 20,
         SMTP_login ''u'' ''p'', SMTP_quit]"
    unfolding h1 by (simp_all add: run_test_smtp_up_at)
  have "clock env_up h2 - clock env_up [] = 5 / 8"
    unfolding h2 by (simp add: env_up_def tick_def)
  then have el: "round2 (clock env_up h2 - clock env_up []) = 31 / 50"
    by (simp only: round2_tie)
  from R show ?thesis
    unfolding el a b unfolding h2 by simp
qed

subsection \<open>The scheduler\<close>

lemma test_one_returns:
  assumes "only_Exceptions w" and "0 \<le> d"
  shows "\<exists>r h'. test_one w u q t v d h = (Inr r, h') \<and> email r = u"
proof -
  from test_imap_returns [OF assms(1)] obtain a da h1
    where A: "test_imap w u q t v (h @ [Time]) = (Inr (a, da), h1)" by blast
  from test_smtp_returns [OF assms(1)] obtain b db h2
    where B: "test_smtp w u q t v (h1 @ [Sleep d]) = (Inr (b, db), h2)" by blast
  show ?thesis
    using A B assms(2)
    by (simp add: test_one_def bind_io_def seq_def time_time_def time_sleep_def ret_def)
qed

lemma post_result_returns:
  assumes "0 \<le> delay_on_success a"
  shows "\<exists>h'. post_result a r rs h = (Inr (rs @ [r]), h')"
  using assms
  by (simp add: post_result_def bind_io_def seq_def print_def time_sleep_def ret_def)

lemma run_sequential_returns:
  assumes "only_Exceptions w" and "0 \<le> delay_on_success a"
  shows "\<exists>rs h'. run_sequential w a valid acc h = (Inr (acc @ rs), h')
           \<and> list_all2 (\<lambda>(u, q) r. email r = u
                 \<and> (\<exists>hk hk'. test_one w u q (timeout a) (verbose a) inter_proto_pause_default hk
                       = (Inr r, hk'))) valid rs"
proof (induction valid arbitrary: acc h)
  case Nil
  show ?case by (simp add: ret_def)
next
  case (Cons cred rest)
  obtain u q where cred: "cred = (u, q)" by (cases cred)
  have pause: "0 \<le> inter_proto_pause_default" by (simp add: inter_proto_pause_default_def)
  from test_one_returns [OF assms(1) pause] obtain r h1
    where T: "test_one w u q (timeout a) (verbose a) inter_proto_pause_default (h @ [Print]) = (Inr r, h1)"
      and E: "email r = u" by blast
  from post_result_returns [OF assms(2)] obtain h2
    where P: "post_result a r acc h1 = (Inr (acc @ [r]), h2)" by blast
  from Cons.IH [of "acc @ [r]" h2] obtain rs h'
    where R: "run_sequential w a rest (acc @ [r]) h2 = (Inr ((acc @ [r]) @ rs), h')"
      and L: "list_all2 (\<lambda>(u, q) r. email r = u
                 \<and> (\<exists>hk hk'. test_one w u q (timeout a) (verbose a) inter_proto_pause_default hk
                       = (Inr r, hk'))) rest rs" by blast
  have "run_sequential w a (cred # rest) acc h = (Inr (acc @ r # rs), h')"
    using T P R by (simp add: cred seq_def bind_io_def print_def)
  moreover have "list_all2 (\<lambda>(u, q) r. email r = u
                 \<and> (\<exists>hk hk'. test_one w u q (timeout a) (verbose a) inter_proto_pause_default hk
                       = (Inr r, hk'))) (cred # rest) (r # rs)"
    using L T E by (auto simp: cred)
  ultimately show ?case by blast
qed

lemma collect_returns:
  assumes "0 \<le> delay_on_success a"
  shows "\<exists>h'. collect a (map Inr rs) acc h = (Inr (acc @ rs), h')"
proof (induction rs arbitrary: acc h)
  case Nil
  show ?case by (simp add: ret_def)
next
  case (Cons r rs)
  from post_result_returns [OF assms] obtain h1
    where P: "post_result a r acc h = (Inr (acc @ [r]), h1)" by blast
  from Cons.IH [of "acc @ [r]" h1] obtain h'
    where "collect a (map Inr rs) (acc @ [r]) h1 = (Inr ((acc @ [r]) @ rs), h')" by blast
  with P show ?case by (simp add: bind_io_def)
qed

lemma fut_result_returns:
  assumes "only_Exceptions (worker p i)"
  shows "\<exists>r. fut_result p a valid i = Inr r \<and> email r = fst (valid ! i)"
proof -
  have pause: "0 \<le> inter_proto_pause_default" by (simp add: inter_proto_pause_default_def)
  from test_one_returns [OF assms pause, of "fst (valid ! i)" "snd (valid ! i)" "timeout a" "verbose a" "[]"]
  show ?thesis by (auto simp: fut_result_def)
qed

lemma run_concurrent_returns:
  assumes "\<And>i. only_Exceptions (worker p i)" and "0 \<le> delay_on_success a"
  shows "\<exists>rs h'. run_concurrent p a valid h = (Inr rs, h')
           \<and> list_all2 (\<lambda>i r. fut_result p a valid i = Inr r \<and> email r = fst (valid ! i))
                (completed p) rs"
proof -
  define rs where "rs = map (\<lambda>i. projr (fut_result p a valid i)) (completed p)"
  have each: "fut_result p a valid i = Inr (projr (fut_result p a valid i))
      \<and> email (projr (fut_result p a valid i)) = fst (valid ! i)" for i
  proof -
    from fut_result_returns [OF assms(1)] obtain r
      where "fut_result p a valid i = Inr r \<and> email r = fst (valid ! i)" by blast
    then show ?thesis by simp
  qed
  have futs: "map (fut_result p a valid) (completed p) = map Inr rs"
    unfolding rs_def using each by simp
  from collect_returns [OF assms(2), of rs "[]" h] obtain h'
    where "collect a (map Inr rs) [] h = (Inr rs, h')" by auto
  then have run: "run_concurrent p a valid h = (Inr rs, h')"
    by (simp add: run_concurrent_def futs)
  have "list_all2 (\<lambda>i r. fut_result p a valid i = Inr r \<and> email r = fst (valid ! i))
                (completed p) rs"
    unfolding rs_def list_all2_map2 using each by (simp add: list.rel_refl)
  with run show ?thesis by blast
qed








subsection \<open>From the input table to the report\<close>

lemma read_accounts_Nil: "read_accounts [] = ([], [])"
  by (simp add: read_accounts_def)

lemma read_accounts_length:
  "length (fst (read_accounts rows)) + length (snd (read_accounts rows)) = length rows"
proof (induction rows rule: rev_induct)
  case Nil
  show ?case by (simp add: read_accounts_Nil)
next
  case (snoc r rows)
  then show ?case by (simp add: read_accounts_snoc)
qed

lemma print_skips_returns: "\<exists>h'. print_skips ss h = (Inr (), h')"
  by (induction ss arbitrary: h) (simp_all add: ret_def seq_def bind_io_def print_def)

lemma schedule_returns:
  assumes "only_Exceptions w" and "\<forall>i. only_Exceptions (worker p i)"
      and "0 \<le> delay_on_success a"
      and "distinct (completed p)" and "set (completed p) = {..<length valid}"
  shows "\<exists>rs h'. schedule w p a valid h = (Inr rs, h') \<and> length rs = length valid"
proof (cases "sequential a \<or> length valid \<le> 1")
  case True
  from run_sequential_returns [OF assms(1) assms(3), of valid "[]" h] obtain rs h'
    where R: "run_sequential w a valid [] h = (Inr rs, h')"
      and L: "list_all2 (\<lambda>(u, q) r. email r = u
                 \<and> (\<exists>hk hk'. test_one w u q (timeout a) (verbose a) inter_proto_pause_default hk
                       = (Inr r, hk'))) valid rs" by auto
  from L have "length rs = length valid" by (simp add: list_all2_lengthD)
  with True R show ?thesis by (auto simp: schedule_def)
next
  case False
  from assms(2) have workers: "\<And>i. only_Exceptions (worker p i)" by simp
  from run_concurrent_returns [OF workers assms(3), of valid h] obtain rs h'
    where R: "run_concurrent p a valid h = (Inr rs, h')"
      and L: "list_all2 (\<lambda>i r. fut_result p a valid i = Inr r \<and> email r = fst (valid ! i))
                (completed p) rs" by auto
  from L have "length rs = length (completed p)" by (simp add: list_all2_lengthD)
  also from assms(4) have "\<dots> = card (set (completed p))" by (simp add: distinct_card)
  also from assms(5) have "\<dots> = length valid" by simp
  finally have "length rs = length valid" .
  with False R show ?thesis by (simp add: schedule_def)
qed

lemma main_returns:
  assumes "only_Exceptions w" and "\<forall>i. only_Exceptions (worker p i)"
      and "0 \<le> delay_on_success a" and "0 \<le> timeout a"
      and "distinct (completed p)"
      and "set (completed p) = {..<length (fst (read_accounts rows))}"
  shows "\<exists>rs h1 h2 h'.
      schedule w p a (fst (read_accounts rows)) h1 = (Inr rs, h2)
    \<and> length rs = length (fst (read_accounts rows))
    \<and> main w p a rows h = (Inr (write_report rs (snd (read_accounts rows))), h')"
proof -
  obtain valid skipped where ra: "read_accounts rows = (valid, skipped)"
    by (cases "read_accounts rows")
  from print_skips_returns obtain h1 where PS: "print_skips skipped (h @ [Print]) = (Inr (), h1)"
    by blast
  from schedule_returns [OF assms(1,2,3,5)] assms(6) ra obtain rs h2
    where S: "schedule w p a valid h1 = (Inr rs, h2)" and len: "length rs = length valid"
    by fastforce
  have "main w p a rows h = (Inr (write_report rs skipped), h2 @ [Print])"
    using assms(4) PS S
    by (simp add: main_def ra setdefaulttimeout_def seq_def bind_io_def print_def ret_def)
  with S len ra show ?thesis by auto
qed

end
